theory Spec2Isabelle
  imports Main "HOL-Library.Monad_Syntax"
begin

section \<open>pam\_hbac configuration parser (src/pam\_hbac\_config.c)\<close>

text \<open>
  A shallow embedding of \<^verbatim>\<open>pam_hbac_config.c\<close>.  C strings are modelled by the list of
  their characters before the terminator; heap blocks hold raw bytes, terminator included.
  The calls to \<^verbatim>\<open>logger\<close> and the \<^verbatim>\<open>fopen\<close>/\<^verbatim>\<open>fclose\<close> bookkeeping of the
  file handle have no influence on the values studied here and are left out.
\<close>

subsection \<open>Characters and libc string primitives\<close>

definition NUL :: char where
  "NUL = CHR 0x00"

definition SEPARATOR :: char where
  "SEPARATOR = CHR ''=''"

definition MAX_LINE :: nat where
  "MAX_LINE = 1024"

definition EAGAIN :: int where
  "EAGAIN = 11"

definition ENOMEM :: int where
  "ENOMEM = 12"

definition EINVAL :: int where
  "EINVAL = 22"

text \<open>\<^verbatim>\<open>isspace\<close> in the C/POSIX locale: space, and the control characters 9 to 13.\<close>

definition isspace :: "char \<Rightarrow> bool" where
  "isspace c \<longleftrightarrow> c = CHR 0x20 \<or> c = CHR 0x09 \<or> c = CHR 0x0A \<or> c = CHR 0x0B
     \<or> c = CHR 0x0C \<or> c = CHR 0x0D"

text \<open>\<^verbatim>\<open>tolower\<close> in the C/POSIX locale, on which \<^verbatim>\<open>strcasecmp\<close> is built.\<close>

definition tolower :: "char \<Rightarrow> char" where
  "tolower c = (let n = (of_char c :: nat) in if 65 \<le> n \<and> n \<le> 90 then char_of (n + 32) else c)"

fun strcasecmp :: "string \<Rightarrow> string \<Rightarrow> int" where
  "strcasecmp [] [] = 0"
| "strcasecmp [] (d # ds) = - int (of_char (tolower d))"
| "strcasecmp (c # cs) [] = int (of_char (tolower c))"
| "strcasecmp (c # cs) (d # ds) =
     (if tolower c = tolower d then strcasecmp cs ds
      else int (of_char (tolower c)) - int (of_char (tolower d)))"

text \<open>\<^verbatim>\<open>strchr\<close>: the offset of the first occurrence of a character, if any.\<close>

fun strchr :: "string \<Rightarrow> char \<Rightarrow> nat option" where
  "strchr [] c = None"
| "strchr (x # xs) c = (if x = c then Some 0 else map_option Suc (strchr xs c))"

text \<open>The C string held by a byte buffer: the bytes before the first terminator.\<close>

definition c_str :: "char list \<Rightarrow> string" where
  "c_str buf = takeWhile (\<lambda>c. c \<noteq> NUL) buf"

subsection \<open>strip\<close>

text \<open>
  \<^verbatim>\<open>while (*start && isspace(*start)) ++start;\<close>
  The argument is the string at \<^verbatim>\<open>start\<close>; the result is the string at the final
  \<^verbatim>\<open>start\<close>.
\<close>

fun skip_leading :: "string \<Rightarrow> string" where
  "skip_leading [] = []"
| "skip_leading (c # cs) = (if isspace c then skip_leading cs else c # cs)"

text \<open>
  \<^verbatim>\<open>while (end > start && isspace(*end)) *end-- = '\0';\<close>
  The first argument is the string at \<^verbatim>\<open>start\<close>, the second the distance
  \<^verbatim>\<open>end - start\<close>.  Writing the terminator at offset \<open>n\<close> cuts the string to its
  first \<open>n\<close> characters.  The loop does not run when \<^verbatim>\<open>end\<close> is at or before
  \<^verbatim>\<open>start\<close>, so both cases are the distance \<open>0\<close>.
\<close>

fun trim_trailing :: "string \<Rightarrow> nat \<Rightarrow> string" where
  "trim_trailing t 0 = t"
| "trim_trailing t (Suc n) =
     (if isspace (t ! Suc n) then trim_trailing (take (Suc n) t) n else t)"

text \<open>
  \<^verbatim>\<open>end = s + strlen(s) - 1\<close>: after the leading scan has left the string \<open>t\<close> at
  \<^verbatim>\<open>start\<close>, \<^verbatim>\<open>end\<close> is \<open>length t - 1\<close> characters after \<^verbatim>\<open>start\<close>, and
  before it when \<open>t\<close> is empty.
\<close>

definition strip :: "string \<Rightarrow> string" where
  "strip s = (let t = skip_leading s in trim_trailing t (length t - 1))"

subsection \<open>Data model\<close>

text \<open>A pointer is \<open>None\<close> (the null pointer) or the address of a heap block.\<close>

type_synonym ptr = "nat option"

text \<open>\<^verbatim>\<open>struct pam_hbac_config\<close>, as the parser uses it.\<close>

record pam_hbac_config =
  uri :: ptr
  bind_dn :: ptr
  bind_pw :: ptr
  search_base :: ptr
  hostname :: ptr
  timeout :: int

datatype cell = Bytes "char list" | Conf pam_hbac_config

text \<open>
  The program state: the heap is the list of all blocks ever allocated, a block's address
  being its position; a released block is \<open>None\<close> and its address is never handed out
  again.  \<open>oom\<close> decides the coming allocations, one entry each (\<open>False\<close>: the allocation
  returns the null pointer); once the list is used up every allocation succeeds.
  \<open>out_conf\<close> is the caller's slot \<^verbatim>\<open>*_conf\<close>.
\<close>

record state =
  heap :: "cell option list"
  oom :: "bool list"
  out_conf :: ptr

text \<open>
  The macros of \<^verbatim>\<open>pam_hbac.h\<close>, \<^verbatim>\<open>config.h\<close> and \<^verbatim>\<open>limits.h\<close> that the parser
  uses.  The headers are not part of the source at hand, so the values are parameters.
\<close>

record macros =
  PAM_HBAC_CONFIG_URI :: string
  PAM_HBAC_CONFIG_BIND_DN :: string
  PAM_HBAC_CONFIG_BIND_PW :: string
  PAM_HBAC_CONFIG_SEARCH_BASE :: string
  PAM_HBAC_CONFIG_HOST_NAME :: string
  PAM_HBAC_DEFAULT_URI :: string
  PAM_HBAC_DEFAULT_SEARCH_BASE :: string
  PAM_HBAC_DEFAULT_TIMEOUT :: int
  HOST_NAME_MAX :: nat

text \<open>
  The operating system, as far as the parser sees it: \<open>fopen\<close> gives the \<^verbatim>\<open>errno\<close> of
  a failed open or the contents of the file; \<open>gethostname n\<close> is \<open>None\<close> when the call
  returns \<open>-1\<close> and otherwise the bytes the call stores into a buffer of \<open>n\<close> bytes;
  \<open>uninit i\<close> is byte \<open>i\<close> of a block that \<^verbatim>\<open>malloc\<close> returns.
\<close>

record sys =
  fopen :: "string \<Rightarrow> int + string"
  gethostname :: "nat \<Rightarrow> char list option"
  uninit :: "nat \<Rightarrow> char"

subsection \<open>Heap primitives\<close>

definition lookup :: "cell option list \<Rightarrow> nat \<Rightarrow> cell option" where
  "lookup h a = (if a < length h then h ! a else None)"

definition alloc :: "cell \<Rightarrow> state \<Rightarrow> ptr \<times> state" where
  "alloc c s =
     (case oom s of
        [] \<Rightarrow> (Some (length (heap s)), s\<lparr>heap := heap s @ [Some c]\<rparr>)
      | b # bs \<Rightarrow>
          if b then (Some (length (heap s)), s\<lparr>heap := heap s @ [Some c], oom := bs\<rparr>)
          else (None, s\<lparr>oom := bs\<rparr>))"

definition strdup :: "string \<Rightarrow> state \<Rightarrow> ptr \<times> state" where
  "strdup str s = alloc (Bytes (str @ [NUL])) s"

definition malloc :: "sys \<Rightarrow> nat \<Rightarrow> state \<Rightarrow> ptr \<times> state" where
  "malloc E n s = alloc (Bytes (map (uninit E) [0..<n])) s"

text \<open>\<^verbatim>\<open>calloc(1, sizeof(struct pam_hbac_config))\<close>: every field zero.\<close>

definition calloc_config :: "state \<Rightarrow> ptr \<times> state" where
  "calloc_config s =
     alloc (Conf \<lparr>uri = None, bind_dn = None, bind_pw = None, search_base = None,
                  hostname = None, timeout = 0\<rparr>) s"

text \<open>
  \<^verbatim>\<open>free\<close>: nothing happens on the null pointer; releasing an address that holds no live
  block is undefined behaviour, the result \<open>None\<close>.
\<close>

definition free :: "ptr \<Rightarrow> state \<Rightarrow> state option" where
  "free p s =
     (case p of
        None \<Rightarrow> Some s
      | Some a \<Rightarrow>
          (case lookup (heap s) a of
             None \<Rightarrow> None
           | Some c \<Rightarrow> Some (s\<lparr>heap := (heap s)[a := None]\<rparr>)))"

text \<open>
  \<^verbatim>\<open>free_const\<close> and \<^verbatim>\<open>discard_const\<close> come from \<^verbatim>\<open>pam_hbac_compat.h\<close>, which is
  not in the source at hand.  Modelled from the spec: the macro releases the string it is
  given (``the value is discarded immediately (freed)''), that is \<^verbatim>\<open>free\<close> behind a cast.
\<close>

definition free_const :: "ptr \<Rightarrow> state \<Rightarrow> state option" where
  "free_const p s = free p s"

text \<open>Reading through a pointer; \<open>None\<close> is a null or dangling dereference.\<close>

definition bytes_at :: "state \<Rightarrow> ptr \<Rightarrow> char list option" where
  "bytes_at s p =
     (case p of
        None \<Rightarrow> None
      | Some a \<Rightarrow> (case lookup (heap s) a of Some (Bytes b) \<Rightarrow> Some b | _ \<Rightarrow> None))"

definition string_at :: "state \<Rightarrow> ptr \<Rightarrow> string option" where
  "string_at s p = map_option c_str (bytes_at s p)"

definition conf_at :: "state \<Rightarrow> nat \<Rightarrow> pam_hbac_config option" where
  "conf_at s a = (case lookup (heap s) a of Some (Conf r) \<Rightarrow> Some r | _ \<Rightarrow> None)"

definition store :: "nat \<Rightarrow> cell \<Rightarrow> state \<Rightarrow> state" where
  "store a c s = s\<lparr>heap := (heap s)[a := Some c]\<rparr>"

subsection \<open>ph\_cleanup\_config\<close>

definition ph_cleanup_config :: "ptr \<Rightarrow> state \<Rightarrow> state option" where
  "ph_cleanup_config conf s =
     (case conf of
        None \<Rightarrow> Some s
      | Some a \<Rightarrow> do {
          r \<leftarrow> conf_at s a;
          s1 \<leftarrow> free_const (uri r) s;
          s2 \<leftarrow> free_const (search_base r) s1;
          s3 \<leftarrow> free (hostname r) s2;
          free (Some a) s3
        })"

subsection \<open>get\_key\_value\<close>

text \<open>
  The third argument holds the caller's \<^verbatim>\<open>*_key\<close> and \<^verbatim>\<open>*_value\<close>, which the function
  writes on success only.  After \<^verbatim>\<open>l[sep-line] = '\0'\<close> the string at \<^verbatim>\<open>l\<close> is the
  line up to the separator; that store dereferences \<^verbatim>\<open>l\<close> unchecked, so a failed
  \<^verbatim>\<open>strdup(line)\<close> is undefined behaviour.  \<^verbatim>\<open>strip(sep+1)\<close> works on the line after
  the separator.
\<close>

definition get_key_value ::
    "string \<Rightarrow> ptr \<times> ptr \<Rightarrow> state \<Rightarrow> ((int \<times> ptr \<times> ptr) \<times> state) option" where
  "get_key_value line kv s =
     (case strchr line SEPARATOR of
        None \<Rightarrow> Some ((EINVAL, kv), s)
      | Some sep \<Rightarrow>
          (let (l, s1) = strdup line s in
           case l of
             None \<Rightarrow> None
           | Some la \<Rightarrow>
               (let (key, s2) = strdup (strip (take sep line)) s1;
                    (value, s3) = strdup (strip (drop (Suc sep) line)) s2
                in do {
                  s4 \<leftarrow> free l s3;
                  if key = None \<or> value = None then Some ((ENOMEM, kv), s4)
                  else Some ((0, key, value), s4)
                })))"

subsection \<open>read\_config\_line\<close>

text \<open>The label \<^verbatim>\<open>fail:\<close> of \<^verbatim>\<open>read_config_line\<close>.\<close>

definition read_config_line_fail :: "int \<Rightarrow> ptr \<Rightarrow> ptr \<Rightarrow> state \<Rightarrow> (int \<times> state) option" where
  "read_config_line_fail ret key value s = do {
     s1 \<leftarrow> free_const key s;
     s2 \<leftarrow> free_const value s1;
     Some (ret, s2)
   }"

text \<open>
  \<^verbatim>\<open>while(isspace(*l)) ++l;\<close> stops at the terminator, which is no whitespace, so it is
  the leading scan of \<open>strip\<close>.  The record is read and written through the pointer
  \<open>conf\<close>.
\<close>

definition read_config_line :: "macros \<Rightarrow> string \<Rightarrow> nat \<Rightarrow> state \<Rightarrow> (int \<times> state) option" where
  "read_config_line B line conf s =
     (let l = skip_leading line in
      if (case l of [] \<Rightarrow> False | c # cs \<Rightarrow> c = CHR ''#'') then
        read_config_line_fail EAGAIN None None s
      else do {
        ((ret, key, value), s1) \<leftarrow> get_key_value l (None, None) s;
        if ret \<noteq> 0 then read_config_line_fail ret key value s1
        else do {
          k \<leftarrow> string_at s1 key;
          r \<leftarrow> conf_at s1 conf;
          s2 \<leftarrow>
            (if strcasecmp k (PAM_HBAC_CONFIG_URI B) = 0 then
               Some (store conf (Conf (r\<lparr>uri := value\<rparr>)) s1)
             else if strcasecmp k (PAM_HBAC_CONFIG_BIND_DN B) = 0 then
               Some (store conf (Conf (r\<lparr>bind_dn := value\<rparr>)) s1)
             else if strcasecmp k (PAM_HBAC_CONFIG_BIND_PW B) = 0 then
               Some (store conf (Conf (r\<lparr>bind_pw := value\<rparr>)) s1)
             else if strcasecmp k (PAM_HBAC_CONFIG_SEARCH_BASE B) = 0 then
               Some (store conf (Conf (r\<lparr>search_base := value\<rparr>)) s1)
             else if strcasecmp k (PAM_HBAC_CONFIG_HOST_NAME B) = 0 then
               Some (store conf (Conf (r\<lparr>hostname := value\<rparr>)) s1)
             else free_const value s1);
          s3 \<leftarrow> free_const key s2;
          Some (0, s3)
        }
      })"

subsection \<open>default\_config\<close>

text \<open>The label \<^verbatim>\<open>fail:\<close> of \<^verbatim>\<open>default_config\<close>; \<open>r\<close> is the record as it stands.\<close>

definition default_config_fail ::
    "nat \<Rightarrow> pam_hbac_config \<Rightarrow> state \<Rightarrow> (ptr \<times> state) option" where
  "default_config_fail conf r s = do {
     s' \<leftarrow> ph_cleanup_config (Some conf) (store conf (Conf r) s);
     Some (None, s')
   }"

text \<open>The timeout default and the regular return.\<close>

definition default_config_timeout ::
    "macros \<Rightarrow> nat \<Rightarrow> pam_hbac_config \<Rightarrow> state \<Rightarrow> (ptr \<times> state) option" where
  "default_config_timeout B conf r s =
     (let r' = (if timeout r = 0 then r\<lparr>timeout := PAM_HBAC_DEFAULT_TIMEOUT B\<rparr> else r)
      in Some (Some conf, store conf (Conf r') s))"

text \<open>
  What \<^verbatim>\<open>gethostname\<close> leaves in the buffer: the bytes \<open>w\<close> it stores, as far as the
  buffer reaches, over the previous contents.
\<close>

definition store_bytes :: "char list \<Rightarrow> char list \<Rightarrow> char list" where
  "store_bytes w buf = take (length buf) w @ drop (length w) buf"

text \<open>
  The record is read once, updated field by field as the code does, and written back
  before the cleanup or the return.  \<^verbatim>\<open>conf->hostname[HOST_NAME_MAX-1] = '\0'\<close> is a
  store outside the buffer when \<^verbatim>\<open>HOST_NAME_MAX\<close> is \<open>0\<close>: undefined behaviour.
\<close>

definition default_config :: "macros \<Rightarrow> sys \<Rightarrow> nat \<Rightarrow> state \<Rightarrow> (ptr \<times> state) option" where
  "default_config B E conf s = do {
     r \<leftarrow> conf_at s conf;
     let (r1, s1) =
       (if uri r = None then
          (let (p, s') = strdup (PAM_HBAC_DEFAULT_URI B) s in (r\<lparr>uri := p\<rparr>, s'))
        else (r, s));
     let (r2, s2) =
       (if search_base r1 = None then
          (let (p, s') = strdup (PAM_HBAC_DEFAULT_SEARCH_BASE B) s1 in (r1\<lparr>search_base := p\<rparr>, s'))
        else (r1, s1));
     if search_base r2 = None \<or> uri r2 = None then default_config_fail conf r2 s2
     else if hostname r2 = None then
       (let (p, s3) = malloc E (HOST_NAME_MAX B) s2;
            r3 = r2\<lparr>hostname := p\<rparr>
        in case p of
             None \<Rightarrow> default_config_fail conf r3 s3
           | Some h \<Rightarrow>
               (case gethostname E (HOST_NAME_MAX B) of
                  None \<Rightarrow> default_config_fail conf r3 s3
                | Some w \<Rightarrow> do {
                    buf \<leftarrow> bytes_at s3 p;
                    let buf' = store_bytes w buf;
                    if HOST_NAME_MAX B = 0 \<or> length buf' \<le> HOST_NAME_MAX B - 1 then None
                    else default_config_timeout B conf r3
                           (store h (Bytes (buf'[HOST_NAME_MAX B - 1 := NUL])) s3)
                  }))
     else default_config_timeout B conf r2 s2
   }"

subsection \<open>ph\_read\_config\<close>

text \<open>
  \<^verbatim>\<open>fgets(line, sizeof(line), fp)\<close>: the first argument is the number of characters that
  still fit before the terminator, the second the unread part of the file.  The result
  is the characters read and the part of the file left unread.
\<close>

fun fgets :: "nat \<Rightarrow> string \<Rightarrow> string \<times> string" where
  "fgets 0 fp = ([], fp)"
| "fgets (Suc n) [] = ([], [])"
| "fgets (Suc n) (c # fp) =
     (if c = CHR 0x0A then ([c], fp)
      else (let (ln, fp') = fgets n fp in (c # ln, fp')))"

text \<open>
  The strings that the successive \<^verbatim>\<open>fgets\<close> calls of the loop put into \<^verbatim>\<open>line\<close>, up to the
  end of the file, where \<^verbatim>\<open>fgets\<close> returns the null pointer.  The buffer is read as a
  C string.
\<close>

function file_lines :: "string \<Rightarrow> string list" where
  "file_lines fp =
     (if fp = [] then []
      else c_str (fst (fgets (MAX_LINE - 1) fp)) # file_lines (snd (fgets (MAX_LINE - 1) fp)))"
  by pat_completeness auto
termination
proof (relation "measure length")
  show "wf (measure length)" by simp
next
  fix fp :: string
  assume ne: "fp \<noteq> []"
  have le: "length (snd (fgets n cs)) \<le> length cs" for n cs
    by (induction n cs rule: fgets.induct) (auto split: prod.splits)
  obtain c cs where fp: "fp = c # cs"
    using ne by (cases fp) auto
  have lt: "length (snd (fgets (Suc n) (c # cs))) < length (c # cs)" for n
    using le [of n cs] by (auto split: prod.splits)
  have "MAX_LINE - 1 = Suc 1022"
    by (simp add: MAX_LINE_def)
  then show "(snd (fgets (MAX_LINE - 1) fp), fp) \<in> measure length"
    using lt [of 1022] by (simp add: fp)
qed

text \<open>How the \<^verbatim>\<open>while\<close> loop ends: at the end of the file, or at \<^verbatim>\<open>goto done\<close> with \<^verbatim>\<open>ret\<close>.\<close>

datatype loop_exit = Eof | Abort int

fun read_lines :: "macros \<Rightarrow> string list \<Rightarrow> nat \<Rightarrow> state \<Rightarrow> (loop_exit \<times> state) option" where
  "read_lines B [] conf s = Some (Eof, s)"
| "read_lines B (line # rest) conf s =
     (case read_config_line B line conf s of
        None \<Rightarrow> None
      | Some (ret, s1) \<Rightarrow>
          if ret = EAGAIN then read_lines B rest conf s1
          else if ret \<noteq> 0 then Some (Abort ret, s1)
          else read_lines B rest conf s1)"

text \<open>The label \<^verbatim>\<open>done:\<close> of \<^verbatim>\<open>ph_read_config\<close>.\<close>

definition ph_read_config_done :: "int \<Rightarrow> ptr \<Rightarrow> state \<Rightarrow> (int \<times> state) option" where
  "ph_read_config_done ret conf s =
     (if ret \<noteq> 0 then do { s' \<leftarrow> ph_cleanup_config conf s; Some (ret, s') }
      else Some (ret, s))"

definition ph_read_config :: "macros \<Rightarrow> sys \<Rightarrow> string \<Rightarrow> state \<Rightarrow> (int \<times> state) option" where
  "ph_read_config B E config_file s =
     (case fopen E config_file of
        Inl errno \<Rightarrow> Some (errno, s)
      | Inr fp \<Rightarrow>
          (let (conf, s1) = calloc_config s in
           case conf of
             None \<Rightarrow> ph_read_config_done ENOMEM None s1
           | Some a \<Rightarrow> do {
               (ex, s2) \<leftarrow> read_lines B (file_lines fp) a s1;
               case ex of
                 Abort ret \<Rightarrow> ph_read_config_done ret (Some a) s2
               | Eof \<Rightarrow> do {
                   (conf', s3) \<leftarrow> default_config B E a s2;
                   case conf' of
                     None \<Rightarrow> ph_read_config_done ENOMEM None s3
                   | Some a' \<Rightarrow> ph_read_config_done 0 conf' (s3\<lparr>out_conf := conf'\<rparr>)
                 }
             }))"

subsection \<open>A sample build and system\<close>

text \<open>
  Modelled from the spec: the header with the key names and defaults is not in the source
  at hand; the spec lists the recognised keys as \<^verbatim>\<open>ldap_uri\<close>, \<^verbatim>\<open>ldap_bind_dn\<close>,
  \<^verbatim>\<open>ldap_bind_pw\<close>, \<^verbatim>\<open>ldap_search_base\<close> and a host-name key.  The defaults and the
  buffer size are sample values.
\<close>

definition sample_macros :: macros where
  "sample_macros =
     \<lparr>PAM_HBAC_CONFIG_URI = ''ldap_uri'',
      PAM_HBAC_CONFIG_BIND_DN = ''ldap_bind_dn'',
      PAM_HBAC_CONFIG_BIND_PW = ''ldap_bind_pw'',
      PAM_HBAC_CONFIG_SEARCH_BASE = ''ldap_search_base'',
      PAM_HBAC_CONFIG_HOST_NAME = ''host_name'',
      PAM_HBAC_DEFAULT_URI = ''ldap://localhost'',
      PAM_HBAC_DEFAULT_SEARCH_BASE = ''dc=localdomain'',
      PAM_HBAC_DEFAULT_TIMEOUT = 5,
      HOST_NAME_MAX = 8\<rparr>"

text \<open>
  A machine whose only file holds the given text, whose host name is longer than the
  buffer, and whose fresh memory is filled with \<^verbatim>\<open>x\<close>.
\<close>

definition sample_sys :: "string \<Rightarrow> sys" where
  "sample_sys text =
     \<lparr>fopen = (\<lambda>path. if path = ''/etc/pam_hbac.conf'' then Inr text else Inl 2),
      gethostname = (\<lambda>n. Some (take n ''client.example.com'')),
      uninit = (\<lambda>i. CHR ''x'')\<rparr>"

definition init_state :: "bool list \<Rightarrow> state" where
  "init_state bs = \<lparr>heap = [], oom = bs, out_conf = None\<rparr>"

subsection \<open>Vocabulary of the statements\<close>

text \<open>A string of whitespace only (possibly empty).\<close>

definition blank :: "string \<Rightarrow> bool" where
  "blank ws = list_all isspace ws"

text \<open>A string with no whitespace at either end.\<close>

definition trimmed :: "string \<Rightarrow> bool" where
  "trimmed v \<longleftrightarrow> v = [] \<or> (\<not> isspace (hd v) \<and> \<not> isspace (last v))"

definition next_ok :: "state \<Rightarrow> bool" where
  "next_ok s = (case oom s of [] \<Rightarrow> True | b # bs \<Rightarrow> b)"

definition allocs_ok :: "nat \<Rightarrow> state \<Rightarrow> bool" where
  "allocs_ok n s = list_all id (take n (oom s))"

definition no_conf :: "cell option list \<Rightarrow> bool" where
  "no_conf ext = list_all (\<lambda>c. case c of Some (Conf r) \<Rightarrow> False | _ \<Rightarrow> True) ext"

datatype field = Uri | Bind_dn | Bind_pw | Search_base | Hostname

fun get_field :: "field \<Rightarrow> pam_hbac_config \<Rightarrow> ptr" where
  "get_field Uri r = uri r"
| "get_field Bind_dn r = bind_dn r"
| "get_field Bind_pw r = bind_pw r"
| "get_field Search_base r = search_base r"
| "get_field Hostname r = hostname r"

fun set_field :: "field \<Rightarrow> ptr \<Rightarrow> pam_hbac_config \<Rightarrow> pam_hbac_config" where
  "set_field Uri p r = r\<lparr>uri := p\<rparr>"
| "set_field Bind_dn p r = r\<lparr>bind_dn := p\<rparr>"
| "set_field Bind_pw p r = r\<lparr>bind_pw := p\<rparr>"
| "set_field Search_base p r = r\<lparr>search_base := p\<rparr>"
| "set_field Hostname p r = r\<lparr>hostname := p\<rparr>"

definition key_field :: "macros \<Rightarrow> string \<Rightarrow> field option" where
  "key_field B k =
     (if strcasecmp k (PAM_HBAC_CONFIG_URI B) = 0 then Some Uri
      else if strcasecmp k (PAM_HBAC_CONFIG_BIND_DN B) = 0 then Some Bind_dn
      else if strcasecmp k (PAM_HBAC_CONFIG_BIND_PW B) = 0 then Some Bind_pw
      else if strcasecmp k (PAM_HBAC_CONFIG_SEARCH_BASE B) = 0 then Some Search_base
      else if strcasecmp k (PAM_HBAC_CONFIG_HOST_NAME B) = 0 then Some Hostname
      else None)"

datatype line_class = Comment | Malformed | Directive string string

definition classify :: "string \<Rightarrow> line_class" where
  "classify line =
     (let l = dropWhile isspace line in
      if (case l of [] \<Rightarrow> False | c # cs \<Rightarrow> c = CHR ''#'') then Comment
      else case strchr l SEPARATOR of
             None \<Rightarrow> Malformed
           | Some sep \<Rightarrow> Directive (strip (take sep l)) (strip (drop (Suc sep) l)))"

text \<open>The record that \<^verbatim>\<open>calloc\<close> returns, and a state holding just that record at address 0.\<close>

definition empty_config :: pam_hbac_config where
  "empty_config = \<lparr>uri = None, bind_dn = None, bind_pw = None, search_base = None,
                     hostname = None, timeout = 0\<rparr>"

definition fresh_conf :: state where
  "fresh_conf = \<lparr>heap = [Some (Conf empty_config)], oom = [], out_conf = None\<rparr>"

definition released :: "state \<Rightarrow> state \<Rightarrow> bool" where
  "released s s' \<longleftrightarrow> out_conf s' = out_conf s \<and> oom s' = oom s \<and>
     length (heap s') = length (heap s) \<and>
     list_all2 (\<lambda>c' c. c' = None \<or> c' = c) (heap s') (heap s)"

definition defaulted :: "macros \<Rightarrow> nat \<Rightarrow> state \<Rightarrow> pam_hbac_config \<Rightarrow> pam_hbac_config \<Rightarrow> bool" where
  "defaulted B n s' r r' \<longleftrightarrow>
     bind_dn r' = bind_dn r \<and> bind_pw r' = bind_pw r \<and>
     timeout r' = (if timeout r = 0 then PAM_HBAC_DEFAULT_TIMEOUT B else timeout r) \<and>
     (case uri r of
        Some p \<Rightarrow> uri r' = Some p
      | None \<Rightarrow> \<exists>p. uri r' = Some p \<and> n \<le> p \<and>
                 lookup (heap s') p = Some (Bytes (PAM_HBAC_DEFAULT_URI B @ [NUL]))) \<and>
     (case search_base r of
        Some p \<Rightarrow> search_base r' = Some p
      | None \<Rightarrow> \<exists>p. search_base r' = Some p \<and> n \<le> p \<and>
                 lookup (heap s') p = Some (Bytes (PAM_HBAC_DEFAULT_SEARCH_BASE B @ [NUL]))) \<and>
     (case hostname r of
        Some p \<Rightarrow> hostname r' = Some p
      | None \<Rightarrow> \<exists>p buf. hostname r' = Some p \<and> n \<le> p \<and> lookup (heap s') p = Some (Bytes buf) \<and>
                 length buf = HOST_NAME_MAX B \<and> 0 < HOST_NAME_MAX B \<and>
                 buf ! (HOST_NAME_MAX B - 1) = NUL)"

subsection \<open>Lemmas on the string primitives\<close>

lemma isspace_simps:
  "\<not> isspace NUL" "\<not> isspace SEPARATOR" "\<not> isspace (CHR ''#'')" "isspace (CHR 0x0A)"
  "isspace (CHR 0x20)"
  by (simp_all add: isspace_def NUL_def SEPARATOR_def)

lemma tolower_NUL_iff: "of_char (tolower c) = (0::nat) \<longleftrightarrow> c = NUL"
proof -
  have "of_char c = (0::nat) \<longleftrightarrow> c = NUL"
    unfolding NUL_def by (cases c) simp
  then show ?thesis
    by (auto simp: tolower_def Let_def)
qed

lemma strcasecmp_zero_iff:
  "NUL \<notin> set a \<Longrightarrow> NUL \<notin> set b \<Longrightarrow>
   strcasecmp a b = 0 \<longleftrightarrow> map tolower a = map tolower b"
proof (induction a b rule: strcasecmp.induct)
  case (2 d ds)
  then show ?case using tolower_NUL_iff [of d] by auto
next
  case (3 c cs)
  then show ?case using tolower_NUL_iff [of c] by auto
qed auto

lemma skip_leading_blank: "blank ws \<Longrightarrow> skip_leading (ws @ t) = skip_leading t"
  by (induction ws) (auto simp: blank_def)

lemma skip_leading_id: "t = [] \<or> \<not> isspace (hd t) \<Longrightarrow> skip_leading t = t"
  by (cases t) auto

lemma trim_trailing_blank:
  "v \<noteq> [] \<Longrightarrow> \<not> isspace (last v) \<Longrightarrow> blank ws \<Longrightarrow>
   trim_trailing (v @ ws) (length (v @ ws) - 1) = v"
proof (induction ws rule: rev_induct)
  case Nil
  then show ?case
    by (cases "length v - 1") (auto simp: last_conv_nth)
next
  case (snoc c ws)
  obtain n where n: "length v + length ws = Suc n"
    using snoc.prems(1) by (cases v) auto
  have "(v @ ws @ [c]) ! Suc n = c"
    using n nth_append_length [of "v @ ws" c] by simp
  moreover have "take (Suc n) (v @ ws @ [c]) = v @ ws"
    using n by simp
  ultimately have "trim_trailing (v @ ws @ [c]) (Suc n) = trim_trailing (v @ ws) n"
    using snoc.prems by (simp add: blank_def)
  then show ?case
    using snoc n by (simp add: blank_def)
qed

text \<open>\<open>strip\<close> removes exactly the whitespace around a trimmed text.\<close>

lemma strip_spec:
  assumes "blank ws1" "trimmed v" "blank ws2"
  shows "strip (ws1 @ v @ ws2) = v"
proof (cases "v = []")
  case True
  have "skip_leading (ws1 @ ws2) = []"
    using skip_leading_blank [of "ws1 @ ws2" "[]"] assms by (simp add: blank_def)
  then show ?thesis using True by (simp add: strip_def)
next
  case False
  then have "skip_leading (ws1 @ v @ ws2) = v @ ws2"
    using assms skip_leading_blank [of ws1 "v @ ws2"] skip_leading_id [of "v @ ws2"]
    by (auto simp: trimmed_def)
  then show ?thesis
    using False assms trim_trailing_blank [of v ws2] by (simp add: strip_def trimmed_def)
qed

subsection \<open>Heap and parser lemmas\<close>

lemma alloc_eq:
  "alloc c s =
     (if next_ok s then (Some (length (heap s)), s\<lparr>heap := heap s @ [Some c], oom := tl (oom s)\<rparr>)
      else (None, s\<lparr>oom := tl (oom s)\<rparr>))"
  by (cases "oom s") (auto simp: alloc_def next_ok_def)

lemma alloc_result:
  assumes "alloc c s = (p, s')"
  shows "out_conf s' = out_conf s \<and> oom s' = tl (oom s) \<and>
         ((p = None \<and> heap s' = heap s \<and> \<not> next_ok s) \<or>
          (p = Some (length (heap s)) \<and> heap s' = heap s @ [Some c] \<and> next_ok s))"
  using assms by (auto simp: alloc_eq split: if_splits)

lemma lookup_append_old: "a < length h \<Longrightarrow> lookup (h @ ext) a = lookup h a"
  by (simp add: lookup_def nth_append)

lemma lookup_append_new: "lookup (h @ ext) (length h + i) = lookup ext i"
  by (simp add: lookup_def nth_append)

lemma free_live:
  "lookup (heap s) a = Some c \<Longrightarrow> free (Some a) s = Some (s\<lparr>heap := (heap s)[a := None]\<rparr>)"
  by (simp add: free_def)

lemma no_conf_simps [simp]:
  "no_conf []" "no_conf (None # xs) = no_conf xs" "no_conf (Some (Bytes b) # xs) = no_conf xs"
  "no_conf (xs @ ys) \<longleftrightarrow> no_conf xs \<and> no_conf ys"
  by (simp_all add: no_conf_def)

lemma drop_self_ex: "\<exists>m. xs = drop m xs"
  by (rule exI [of _ 0]) simp

lemma get_key_value_Some:
  assumes run: "get_key_value line kv s = Some ((ret, k, v), s')"
  shows "out_conf s' = out_conf s \<and>
    ((ret = EINVAL \<and> strchr line SEPARATOR = None \<and> (k, v) = kv \<and> s' = s) \<or>
     (ret = ENOMEM \<and> strchr line SEPARATOR \<noteq> None \<and> (k, v) = kv \<and> \<not> allocs_ok 3 s \<and>
        oom s' = drop 3 (oom s) \<and> (\<exists>ext. heap s' = heap s @ ext \<and> no_conf ext)) \<or>
     (ret = 0 \<and> allocs_ok 3 s \<and> oom s' = drop 3 (oom s) \<and> (\<exists>sep. strchr line SEPARATOR = Some sep \<and>
        k = Some (length (heap s) + 1) \<and> v = Some (length (heap s) + 2) \<and>
        heap s' = heap s @ [None, Some (Bytes (strip (take sep line) @ [NUL])),
                            Some (Bytes (strip (drop (Suc sep) line) @ [NUL]))])))"
proof (cases "strchr line SEPARATOR")
  case None
  then show ?thesis
    using run by (auto simp: get_key_value_def)
next
  case (Some sep)
  define kt where "kt = strip (take sep line)"
  define vt where "vt = strip (drop (Suc sep) line)"
  obtain l s1 where a1: "strdup line s = (l, s1)" by (cases "strdup line s")
  obtain key s2 where a2: "strdup kt s1 = (key, s2)" by (cases "strdup kt s1")
  obtain val s3 where a3: "strdup vt s2 = (val, s3)" by (cases "strdup vt s2")
  from run Some a1 obtain la where l: "l = Some la"
    by (cases l) (auto simp: get_key_value_def)
  note r1' = alloc_result [OF a1 [unfolded strdup_def]]
  have r1: "la = length (heap s)" "heap s1 = heap s @ [Some (Bytes (line @ [NUL]))]"
      "out_conf s1 = out_conf s" "next_ok s"
    using r1' l by auto
  note r2 = alloc_result [OF a2 [unfolded strdup_def]]
  note r3 = alloc_result [OF a3 [unfolded strdup_def]]
  have live: "lookup (heap s3) la = Some (Bytes (line @ [NUL]))"
    using r1 r2 r3 by (auto simp: lookup_def nth_append)
  define s4 where "s4 = s3\<lparr>heap := (heap s3)[la := None]\<rparr>"
  have fr: "free l s3 = Some s4"
    using free_live [OF live] by (simp add: l s4_def)
  have res: "Some ((ret, k, v), s') =
      (if key = None \<or> val = None then Some ((ENOMEM, kv), s4) else Some ((0, key, val), s4))"
    using run Some a1 a2 a3 l fr by (simp add: get_key_value_def kt_def vt_def)
  have oc: "out_conf s4 = out_conf s"
    using r1 r2 r3 by (simp add: s4_def)
  have "oom s4 = tl (tl (tl (oom s)))"
    using r1' r2 r3 by (simp add: s4_def)
  then have om: "oom s4 = drop 3 (oom s)"
    by (simp add: drop_Suc numeral_3_eq_3 tl_drop)
  have ok3: "allocs_ok 3 s \<longleftrightarrow> next_ok s \<and> next_ok s1 \<and> next_ok s2"
    using r1' r2 r3
    by (cases "oom s"; cases "tl (oom s)"; cases "tl (tl (oom s))")
       (simp_all add: allocs_ok_def next_ok_def)
  show ?thesis
  proof (cases "key = None \<or> val = None")
    case True
    then have "ret = ENOMEM" "(k, v) = kv" "s' = s4"
      using res by auto
    moreover have "\<exists>ext. heap s4 = heap s @ ext \<and> no_conf ext"
      using r1 r2 r3 by (auto simp: s4_def)
    moreover have "\<not> allocs_ok 3 s"
      using True r2 r3 ok3 by auto
    ultimately show ?thesis
      using oc om Some by auto
  next
    case False
    then have eq: "ret = 0" "k = key" "v = val" "s' = s4"
      using res by auto
    from False r2 have k2: "key = Some (Suc (length (heap s)))"
        "heap s2 = heap s @ [Some (Bytes (line @ [NUL])), Some (Bytes (kt @ [NUL]))]"
        "next_ok s1"
      using r1 by auto
    from False r3 k2 have k3: "val = Some (Suc (Suc (length (heap s))))"
        "heap s3 = heap s @ [Some (Bytes (line @ [NUL])), Some (Bytes (kt @ [NUL])), Some (Bytes (vt @ [NUL]))]"
        "next_ok s2"
      by auto
    have h4: "heap s4 = heap s @ [None, Some (Bytes (kt @ [NUL])), Some (Bytes (vt @ [NUL]))]"
      using k3 r1 by (simp add: s4_def list_update_append)
    show ?thesis
      using eq oc om Some k2 k3 h4 r1(4) ok3 by (auto simp: kt_def vt_def)
  qed
qed

lemma get_key_value_total:
  assumes "allocs_ok 3 s" "strchr line SEPARATOR = Some sep"
  shows "\<exists>k v s'. get_key_value line kv s = Some ((0, k, v), s')"
proof -
  have n1: "next_ok s"
    using assms(1) by (cases "oom s") (simp_all add: allocs_ok_def next_ok_def)
  obtain l s1 where a1: "strdup line s = (l, s1)" by (cases "strdup line s")
  obtain key s2 where a2: "strdup (strip (take sep line)) s1 = (key, s2)"
    by (cases "strdup (strip (take sep line)) s1")
  obtain val s3 where a3: "strdup (strip (drop (Suc sep) line)) s2 = (val, s3)"
    by (cases "strdup (strip (drop (Suc sep) line)) s2")
  note r1 = alloc_result [OF a1 [unfolded strdup_def]]
  note r2 = alloc_result [OF a2 [unfolded strdup_def]]
  note r3 = alloc_result [OF a3 [unfolded strdup_def]]
  have ok3: "next_ok s \<and> next_ok s1 \<and> next_ok s2"
    using r1 r2 r3 assms(1)
    by (cases "oom s"; cases "tl (oom s)"; cases "tl (tl (oom s))")
       (simp_all add: allocs_ok_def next_ok_def)
  then have p: "l = Some (length (heap s))" "key \<noteq> None" "val \<noteq> None"
    using r1 r2 r3 by auto
  have "lookup (heap s3) (length (heap s)) = Some (Bytes (line @ [NUL]))"
    using r1 r2 r3 ok3 by (auto simp: lookup_def nth_append)
  from free_live [OF this] show ?thesis
    using assms(2) a1 a2 a3 p by (auto simp: get_key_value_def)
qed

lemma skip_leading_dropWhile: "skip_leading s = dropWhile isspace s"
  by (induction s) auto

lemma set_skip_leading: "set (skip_leading s) \<subseteq> set s"
  by (simp add: skip_leading_dropWhile set_dropWhileD subsetI)

lemma set_trim_trailing: "set (trim_trailing t n) \<subseteq> set t"
proof (induction t n rule: trim_trailing.induct)
  case (2 t n)
  then show ?case
    using set_take_subset [of "Suc n" t] by auto
qed simp

lemma set_strip: "set (strip s) \<subseteq> set s"
  using set_trim_trailing [of "skip_leading s" "length (skip_leading s) - 1"] set_skip_leading [of s]
  by (auto simp: strip_def Let_def)

lemma c_str_terminated: "NUL \<notin> set x \<Longrightarrow> c_str (x @ [NUL]) = x"
  by (induction x) (auto simp: c_str_def)

lemma NUL_strip_take: "NUL \<notin> set l \<Longrightarrow> NUL \<notin> set (strip (take n l))"
  using set_strip [of "take n l"] set_take_subset [of n l] by blast

lemma read_config_line_fail_null [simp]: "read_config_line_fail ret None None s = Some (ret, s)"
  by (simp add: read_config_line_fail_def free_const_def free_def)

lemma classify_Comment:
  "classify line = Comment \<longleftrightarrow> (case dropWhile isspace line of [] \<Rightarrow> False | c # cs \<Rightarrow> c = CHR ''#'')"
  by (simp add: classify_def Let_def split: option.splits)

lemma read_config_line_comment:
  "classify line = Comment \<Longrightarrow> read_config_line B line a s = Some (EAGAIN, s)"
  by (simp add: classify_Comment read_config_line_def skip_leading_dropWhile)

lemma read_config_line_malformed:
  "classify line = Malformed \<Longrightarrow> read_config_line B line a s = Some (EINVAL, s)"
  by (auto simp: classify_def read_config_line_def skip_leading_dropWhile Let_def get_key_value_def
      EINVAL_def split: if_splits option.splits)

lemma codes [simp]:
  "EINVAL \<noteq> 0" "ENOMEM \<noteq> 0" "EAGAIN \<noteq> 0" "EINVAL \<noteq> EAGAIN" "ENOMEM \<noteq> EAGAIN"
  "EINVAL \<noteq> ENOMEM" "0 \<noteq> EINVAL" "0 \<noteq> ENOMEM" "0 \<noteq> EAGAIN" "EAGAIN \<noteq> EINVAL"
  "EAGAIN \<noteq> ENOMEM" "ENOMEM \<noteq> EINVAL"
  by (simp_all add: EINVAL_def ENOMEM_def EAGAIN_def)

lemma key_chain:
  "(if strcasecmp k (PAM_HBAC_CONFIG_URI B) = 0 then
               Some (store conf (Conf (r\<lparr>uri := value\<rparr>)) s1)
             else if strcasecmp k (PAM_HBAC_CONFIG_BIND_DN B) = 0 then
               Some (store conf (Conf (r\<lparr>bind_dn := value\<rparr>)) s1)
             else if strcasecmp k (PAM_HBAC_CONFIG_BIND_PW B) = 0 then
               Some (store conf (Conf (r\<lparr>bind_pw := value\<rparr>)) s1)
             else if strcasecmp k (PAM_HBAC_CONFIG_SEARCH_BASE B) = 0 then
               Some (store conf (Conf (r\<lparr>search_base := value\<rparr>)) s1)
             else if strcasecmp k (PAM_HBAC_CONFIG_HOST_NAME B) = 0 then
               Some (store conf (Conf (r\<lparr>hostname := value\<rparr>)) s1)
             else free_const value s1) =
   (case key_field B k of
               Some f \<Rightarrow> Some (store conf (Conf (set_field f value r)) s1)
             | None \<Rightarrow> free_const value s1)"
  by (simp add: key_field_def)

lemma read_config_line_directive:
  assumes cl: "classify line = Directive k v"
  shows "read_config_line B line a s =
     do {
        ((ret, key, value), s1) \<leftarrow> get_key_value (dropWhile isspace line) (None, None) s;
        if ret \<noteq> 0 then read_config_line_fail ret key value s1
        else do {
          k \<leftarrow> string_at s1 key;
          r \<leftarrow> conf_at s1 a;
          s2 \<leftarrow>
            (case key_field B k of
               Some f \<Rightarrow> Some (store a (Conf (set_field f value r)) s1)
             | None \<Rightarrow> free_const value s1);
          s3 \<leftarrow> free_const key s2;
          Some (0, s3)
        }
      }"
proof -
  have "\<not> (case dropWhile isspace line of [] \<Rightarrow> False | c # cs \<Rightarrow> c = CHR ''#'')"
    using cl classify_Comment [of line] by simp
  then show ?thesis
    unfolding read_config_line_def skip_leading_dropWhile Let_def key_chain
    by simp
qed

lemma store_heap [simp]: "heap (store a c s) = (heap s)[a := Some c]"
  and store_out [simp]: "out_conf (store a c s) = out_conf s"
  and store_oom [simp]: "oom (store a c s) = oom s"
  by (simp_all add: store_def)

lemma conf_at_Some: "conf_at s a = Some r \<longleftrightarrow> lookup (heap s) a = Some (Conf r)"
  by (auto simp: conf_at_def split: option.splits cell.splits)

lemma lookup_Some_less: "lookup h a = Some c \<Longrightarrow> a < length h"
  by (auto simp: lookup_def split: if_splits)

lemma lookup_update_other [simp]: "a \<noteq> b \<Longrightarrow> lookup (h[b := x]) a = lookup h a"
  by (simp add: lookup_def)

lemma lookup_conf_append:
  assumes "no_conf ext" "lookup (h @ ext) a = Some (Conf r)"
  shows "a < length h \<and> lookup h a = Some (Conf r)"
proof (cases "a < length h")
  case True
  then show ?thesis using assms(2) by (simp add: lookup_append_old)
next
  case False
  then have "a - length h < length ext" "ext ! (a - length h) = Some (Conf r)"
    using assms(2) by (auto simp: lookup_def nth_append split: if_splits)
  then have "Some (Conf r) \<in> set ext"
    using nth_mem by force
  then show ?thesis
    using assms(1) by (auto simp: no_conf_def list_all_iff)
qed

lemma read_config_line_Some:
  assumes run: "read_config_line B line a s = Some (ret, s')"
    and nul: "NUL \<notin> set line"
  shows "out_conf s' = out_conf s \<and>
    ((ret = EAGAIN \<and> classify line = Comment \<and> s' = s) \<or>
     (ret = EINVAL \<and> classify line = Malformed \<and> s' = s) \<or>
     (ret = ENOMEM \<and> (\<exists>k v. classify line = Directive k v) \<and> \<not> allocs_ok 3 s \<and>
        oom s' = drop 3 (oom s) \<and> (\<exists>ext. heap s' = heap s @ ext \<and> no_conf ext)) \<or>
     (ret = 0 \<and> allocs_ok 3 s \<and> oom s' = drop 3 (oom s) \<and> (\<exists>k v r. classify line = Directive k v \<and> conf_at s a = Some r \<and>
         heap s' =
           (heap s)[a := Some (Conf (case key_field B k of None \<Rightarrow> r
                      | Some f \<Rightarrow> set_field f (Some (length (heap s) + 2)) r))]
           @ [None, None, case key_field B k of None \<Rightarrow> None
                          | Some f \<Rightarrow> Some (Bytes (v @ [NUL]))])))"
proof (cases "classify line")
  case Comment
  then show ?thesis
    using run read_config_line_comment [of line B a s] by auto
next
  case Malformed
  then show ?thesis
    using run read_config_line_malformed [of line B a s] by auto
next
  case (Directive k v)
  define l where "l = dropWhile isspace line"
  define n where "n = length (heap s)"
  from Directive obtain sep where sep: "strchr l SEPARATOR = Some sep"
    and k: "k = strip (take sep l)" and v: "v = strip (drop (Suc sep) l)"
    by (auto simp: classify_def Let_def l_def split: if_splits option.splits)
  note unf = read_config_line_directive [OF Directive, of B a s, folded l_def]
  from run obtain ret1 key val s1 where
    gkv: "get_key_value l (None, None) s = Some ((ret1, key, val), s1)"
    unfolding unf by (auto split: Option.bind_splits)
  note G = get_key_value_Some [OF gkv]
  have oc: "out_conf s1 = out_conf s"
    using G by auto
  have om: "ret1 \<noteq> EINVAL \<Longrightarrow> oom s1 = drop 3 (oom s)"
    using G by auto
  have "NUL \<notin> set l"
    using nul set_dropWhileD [of NUL isspace line] by (auto simp: l_def)
  then have knul: "NUL \<notin> set k"
    unfolding k by (rule NUL_strip_take)
  show ?thesis
  proof (cases "ret1 = 0")
    case False
    then have kv0: "key = None" "val = None" and r1: "ret1 = ENOMEM"
      using G sep by auto
    have "read_config_line B line a s = Some (ret1, s1)"
      unfolding unf gkv using False kv0 by simp
    then show ?thesis
      using run G r1 Directive sep by auto
  next
    case True
    then have kv: "key = Some (n + 1)" "val = Some (n + 2)"
      and h1: "heap s1 = heap s @ [None, Some (Bytes (k @ [NUL])), Some (Bytes (v @ [NUL]))]"
      and ok: "allocs_ok 3 s"
      using G sep k v by (auto simp: n_def)
    have lk: "lookup (heap s1) (n + 1) = Some (Bytes (k @ [NUL]))"
      and lv: "lookup (heap s1) (n + 2) = Some (Bytes (v @ [NUL]))"
      using h1 by (simp_all add: n_def lookup_def nth_append)
    have ks: "string_at s1 key = Some k"
      using kv lk knul by (simp add: string_at_def bytes_at_def c_str_terminated)
    from run obtain r where r: "conf_at s1 a = Some r"
      unfolding unf gkv using True ks by (auto split: Option.bind_splits)
    have ra: "lookup (heap s1) a = Some (Conf r)"
      using r by (simp add: conf_at_Some)
    have a_old: "a < n" and r0: "conf_at s a = Some r"
      using lookup_conf_append [of "[None, Some (Bytes (k @ [NUL])), Some (Bytes (v @ [NUL]))]" "heap s" a r]
        ra h1
      by (simp_all add: conf_at_Some n_def)
    show ?thesis
    proof (cases "key_field B k")
      case None
      define s2 where "s2 = s1\<lparr>heap := (heap s1)[n + 2 := None]\<rparr>"
      define s3 where "s3 = s2\<lparr>heap := (heap s2)[n + 1 := None]\<rparr>"
      have f1: "free_const val s1 = Some s2"
        using free_live [OF lv] by (simp add: free_const_def kv s2_def)
      have "lookup (heap s2) (n + 1) = Some (Bytes (k @ [NUL]))"
        using lk by (simp add: s2_def)
      then have f2: "free_const key s2 = Some s3"
        using free_live [of s2 "n + 1"] by (simp add: free_const_def kv s3_def)
      have "read_config_line B line a s = Some (0, s3)"
        unfolding unf gkv using True ks r None f1 f2 by simp
      then have e: "ret = 0" "s' = s3"
        using run by auto
      have "heap s3 = heap s @ [None, None, None]"
        using h1 by (simp add: s3_def s2_def list_update_append n_def)
      moreover have "(heap s)[a := Some (Conf r)] = heap s"
        using r0 a_old by (simp add: conf_at_Some lookup_def list_update_same_conv n_def)
      ultimately show ?thesis
        using e Directive r0 None oc om True ok by (auto simp: s3_def s2_def)
    next
      case (Some f)
      define s2 where "s2 = store a (Conf (set_field f val r)) s1"
      define s3 where "s3 = s2\<lparr>heap := (heap s2)[n + 1 := None]\<rparr>"
      have "lookup (heap s2) (n + 1) = Some (Bytes (k @ [NUL]))"
        using lk a_old by (simp add: s2_def)
      then have f2: "free_const key s2 = Some s3"
        using free_live [of s2 "n + 1"] by (simp add: free_const_def kv s3_def)
      have "read_config_line B line a s = Some (0, s3)"
        unfolding unf gkv using True ks r Some f2 by (simp add: s2_def)
      then have e: "ret = 0" "s' = s3"
        using run by auto
      have h3: "heap s3 = (heap s)[a := Some (Conf (set_field f (Some (n + 2)) r))]
                  @ [None, None, Some (Bytes (v @ [NUL]))]"
        using h1 a_old kv by (simp add: s3_def s2_def list_update_append n_def)
      show ?thesis
        using e Directive r0 Some oc om True ok h3 by (auto simp: s3_def s2_def n_def)
    qed
  qed
qed

lemma read_config_line_total:
  assumes ok: "allocs_ok 3 s" and r: "conf_at s a = Some r"
  shows "\<exists>ret s'. read_config_line B line a s = Some (ret, s')"
proof (cases "classify line")
  case Comment
  then show ?thesis by (simp add: read_config_line_comment)
next
  case Malformed
  then show ?thesis by (simp add: read_config_line_malformed)
next
  case (Directive k v)
  define l where "l = dropWhile isspace line"
  define n where "n = length (heap s)"
  from Directive obtain sep where sep: "strchr l SEPARATOR = Some sep"
    by (auto simp: classify_def Let_def l_def split: if_splits option.splits)
  note unf = read_config_line_directive [OF Directive, of B a s, folded l_def]
  from get_key_value_total [OF ok sep, of "(None, None)"] obtain key val s1 where
    gkv: "get_key_value l (None, None) s = Some ((0, key, val), s1)"
    by blast
  from get_key_value_Some [OF gkv] obtain kb vb where
    kv: "key = Some (n + 1)" "val = Some (n + 2)"
      and h1: "heap s1 = heap s @ [None, Some (Bytes kb), Some (Bytes vb)]"
    by (auto simp: n_def)
  have lk: "lookup (heap s1) (n + 1) = Some (Bytes kb)"
    and lv: "lookup (heap s1) (n + 2) = Some (Bytes vb)"
    using h1 by (simp_all add: n_def lookup_def nth_append)
  have ks: "string_at s1 key = Some (c_str kb)"
    using kv lk by (simp add: string_at_def bytes_at_def)
  have a_old: "a < n"
    using r lookup_Some_less [of "heap s" a] by (simp add: conf_at_Some n_def)
  then have r1: "conf_at s1 a = Some r"
    using r h1 by (simp add: conf_at_Some lookup_append_old n_def)
  show ?thesis
  proof (cases "key_field B (c_str kb)")
    case None
    define s2 where "s2 = s1\<lparr>heap := (heap s1)[n + 2 := None]\<rparr>"
    have f1: "free_const val s1 = Some s2"
      using free_live [OF lv] by (simp add: free_const_def kv s2_def)
    have "lookup (heap s2) (n + 1) = Some (Bytes kb)"
      using lk by (simp add: s2_def)
    then have f2: "\<exists>s3. free_const key s2 = Some s3"
      using free_live [of s2 "n + 1"] by (simp add: free_const_def kv)
    then show ?thesis
      unfolding unf gkv using ks r1 None f1 by auto
  next
    case (Some f)
    define s2 where "s2 = store a (Conf (set_field f val r)) s1"
    have "lookup (heap s2) (n + 1) = Some (Bytes kb)"
      using lk a_old by (simp add: s2_def)
    then have f2: "\<exists>s3. free_const key s2 = Some s3"
      using free_live [of s2 "n + 1"] by (simp add: free_const_def kv)
    then show ?thesis
      unfolding unf gkv using ks r1 Some by (auto simp: s2_def)
  qed
qed

lemma strchr_first: "c \<notin> set xs \<Longrightarrow> strchr (xs @ c # ys) c = Some (length xs)"
  by (induction xs) auto

lemma blank_no_sep: "blank ws \<Longrightarrow> SEPARATOR \<notin> set ws \<and> NUL \<notin> set ws"
  using isspace_simps(1,2) by (auto simp: blank_def list_all_iff)

lemma classify_directive:
  assumes ws: "blank ws1" "blank ws2" and k: "trimmed k" "SEPARATOR \<notin> set k"
    and hash: "k \<noteq> [] \<longrightarrow> hd k \<noteq> CHR ''#''"
  shows "classify (ws1 @ k @ ws2 @ SEPARATOR # rest) = Directive k (strip rest)"
proof -
  define l where "l = dropWhile isspace (ws1 @ k @ ws2 @ SEPARATOR # rest)"
  have "\<exists>ws. blank ws \<and> l = k @ ws @ SEPARATOR # rest"
  proof (cases "k = []")
    case True
    have "skip_leading ((ws1 @ ws2) @ SEPARATOR # rest) = SEPARATOR # rest"
      using skip_leading_blank [of "ws1 @ ws2" "SEPARATOR # rest"] ws
      by (simp add: blank_def isspace_simps)
    then have "l = k @ [] @ SEPARATOR # rest"
      using True by (simp add: l_def skip_leading_dropWhile)
    then show ?thesis
      using blank_def by fastforce
  next
    case False
    then have "skip_leading (ws1 @ k @ ws2 @ SEPARATOR # rest) = k @ ws2 @ SEPARATOR # rest"
      using skip_leading_blank [OF ws(1), of "k @ ws2 @ SEPARATOR # rest"] k(1)
        skip_leading_id [of "k @ ws2 @ SEPARATOR # rest"]
      by (simp add: trimmed_def)
    then show ?thesis
      using ws(2) by (auto simp: l_def skip_leading_dropWhile)
  qed
  then obtain ws where b: "blank ws" and l: "l = (k @ ws) @ SEPARATOR # rest"
    by auto
  have sep: "strchr l SEPARATOR = Some (length (k @ ws))"
    unfolding l using k(2) blank_no_sep [OF b] by (intro strchr_first) simp
  have nc: "\<not> (case l of [] \<Rightarrow> False | c # cs \<Rightarrow> c = CHR ''#'')"
  proof (cases k)
    case Nil
    then show ?thesis
      using b by (cases ws) (auto simp: l blank_def isspace_def SEPARATOR_def)
  next
    case (Cons c cs)
    then show ?thesis using hash by (simp add: l)
  qed
  have "strip (take (length (k @ ws)) l) = k"
    using strip_spec [of "[]" k ws] b k(1) by (simp add: l blank_def)
  moreover have "drop (Suc (length (k @ ws))) l = rest"
    by (simp add: l)
  ultimately show ?thesis
    using sep nc unfolding classify_def l_def [symmetric] Let_def by simp
qed

lemma conf_at_nth:
  "conf_at s a = Some r \<Longrightarrow> a < length (heap s) \<and> heap s ! a = Some (Conf r)"
  unfolding conf_at_Some lookup_def by (cases "a < length (heap s)") simp_all

subsection \<open>Cleanup and defaulting lemmas\<close>

lemma released_refl: "released s s"
  by (simp add: released_def list_all2_refl)

lemma released_trans:
  assumes "released s s1" "released s1 s2"
  shows "released s s2"
proof -
  have "\<forall>i<length (heap s). heap s2 ! i = None \<or> heap s2 ! i = heap s ! i"
    using assms unfolding released_def list_all2_conv_all_nth by metis
  then show ?thesis
    using assms unfolding released_def list_all2_conv_all_nth by simp
qed

lemma released_lookup:
  "released s s' \<Longrightarrow> lookup (heap s') x = None \<or> lookup (heap s') x = lookup (heap s) x"
  unfolding released_def lookup_def
  by (auto simp: list_all2_conv_all_nth)

lemma free_Some:
  assumes "free p s = Some s'"
  shows "released s s' \<and> (\<forall>a. p = Some a \<longrightarrow> lookup (heap s') a = None)"
proof (cases p)
  case None
  then show ?thesis using assms by (simp add: free_def released_refl)
next
  case (Some a)
  then have s': "s' = s\<lparr>heap := (heap s)[a := None]\<rparr>" and l: "a < length (heap s)"
    using assms by (auto simp: free_def lookup_def split: option.splits if_splits)
  have "released s s'"
    unfolding released_def s' using l by (auto simp: list_all2_conv_all_nth nth_list_update)
  moreover have "lookup (heap s') a = None"
    using l by (simp add: s' lookup_def)
  ultimately show ?thesis using Some by simp
qed

lemma ph_cleanup_config_Some:
  assumes "ph_cleanup_config p s = Some s'"
  shows "released s s' \<and> (\<forall>a. p = Some a \<longrightarrow> lookup (heap s') a = None)"
proof (cases p)
  case None
  then show ?thesis using assms by (simp add: ph_cleanup_config_def released_refl)
next
  case (Some a)
  from assms Some obtain r :: pam_hbac_config and s1 s2 s3 where
    "free_const (uri r) s = Some s1" "free_const (search_base r) s1 = Some s2"
    "free (hostname r) s2 = Some s3" "free (Some a) s3 = Some s'"
    by (auto simp: ph_cleanup_config_def split: Option.bind_splits)
  then have "released s s1" "released s1 s2" "released s2 s3" "released s3 s'"
    "lookup (heap s') a = None"
    using free_Some unfolding free_const_def by blast+
  then show ?thesis
    using Some released_trans by blast
qed

lemma ph_read_config_done_Some:
  assumes "ph_read_config_done ret p s = Some (ret', s')"
  shows "ret' = ret \<and> (if ret = 0 then s' = s
                         else released s s' \<and> (\<forall>a. p = Some a \<longrightarrow> lookup (heap s') a = None))"
  using assms ph_cleanup_config_Some [of p s s']
  by (auto simp: ph_read_config_done_def split: if_splits Option.bind_splits)

lemma length_store_bytes [simp]: "length (store_bytes w buf) = length buf"
  by (simp add: store_bytes_def)

lemma default_step:
  assumes "(if q = None then (let (p, s') = strdup str s in (upd p, s')) else (r, s)) = (r1, s1)"
  shows "out_conf s1 = out_conf s \<and>
    ((q \<noteq> None \<and> r1 = r \<and> s1 = s) \<or>
     (q = None \<and> r1 = upd None \<and> heap s1 = heap s) \<or>
     (q = None \<and> r1 = upd (Some (length (heap s))) \<and> heap s1 = heap s @ [Some (Bytes (str @ [NUL]))]))"
proof (cases "q = None")
  case False
  then show ?thesis using assms by (cases q) simp_all
next
  case True
  obtain p s' where a: "strdup str s = (p, s')" by (cases "strdup str s")
  then have "r1 = upd p" "s1 = s'"
    using assms True by simp_all
  then show ?thesis
    using alloc_result [OF a [unfolded strdup_def]] True by auto
qed

lemma default_config_fail_Some:
  assumes run: "default_config_fail a r' s2 = Some (res, s')"
    and h: "heap s2 = heap s @ e" "no_conf e" "out_conf s2 = out_conf s"
  shows "res = None \<and> out_conf s' = out_conf s \<and> lookup (heap s') a = None \<and>
         (\<forall>x c. lookup (heap s') x = Some (Conf c) \<longrightarrow> lookup (heap s) x = Some (Conf c))"
proof -
  from run have res: "res = None"
    and cl: "ph_cleanup_config (Some a) (store a (Conf r') s2) = Some s'"
    by (auto simp: default_config_fail_def split: Option.bind_splits)
  note C = ph_cleanup_config_Some [OF cl]
  then have rel: "released (store a (Conf r') s2) s'" and gone: "lookup (heap s') a = None"
    by auto
  have "lookup (heap s) x = Some (Conf c)" if x: "lookup (heap s') x = Some (Conf c)" for x c
  proof -
    have "x \<noteq> a" using x gone by auto
    moreover have "lookup (heap (store a (Conf r') s2)) x = Some (Conf c)"
      using released_lookup [OF rel, of x] x by auto
    ultimately have "lookup (heap s @ e) x = Some (Conf c)"
      using h(1) by simp
    then show ?thesis
      using lookup_conf_append [OF h(2)] by blast
  qed
  then show ?thesis
    using res gone rel h(3) by (simp add: released_def)
qed

lemma lookup_new_cell: "lookup (h @ e) (length h + i) = lookup e i"
  by (simp add: lookup_def nth_append)

lemma lookup_keep:
  "lookup h p = Some c \<Longrightarrow> p \<noteq> a \<Longrightarrow> lookup (h[a := x] @ e) p = Some c"
  using lookup_Some_less [of h p c] by (simp add: lookup_append_old)

lemma default_config_Some:
  assumes run: "default_config B E a s = Some (res, s')"
  shows "out_conf s' = out_conf s \<and> (\<exists>r. conf_at s a = Some r \<and>
     (case res of
        None \<Rightarrow> lookup (heap s') a = None \<and>
          (\<forall>x c. lookup (heap s') x = Some (Conf c) \<longrightarrow> lookup (heap s) x = Some (Conf c))
      | Some a' \<Rightarrow> a' = a \<and>
          (\<exists>r' ext. heap s' = (heap s)[a := Some (Conf r')] @ ext \<and> no_conf ext \<and>
             defaulted B (length (heap s)) s' r r')))"
proof -
  define n where "n = length (heap s)"
  define U where "U = PAM_HBAC_DEFAULT_URI B"
  define S where "S = PAM_HBAC_DEFAULT_SEARCH_BASE B"
  define m where "m = HOST_NAME_MAX B"
  from run obtain r where r: "conf_at s a = Some r"
    by (auto simp: default_config_def split: Option.bind_splits)
  have an: "a < n"
    using conf_at_nth [OF r] by (simp add: n_def)
  obtain r1 s1 where st1:
    "(if uri r = None then (let (p, s') = strdup U s in (r\<lparr>uri := p\<rparr>, s')) else (r, s)) = (r1, s1)"
    by fastforce
  obtain r2 s2 where st2:
    "(if search_base r1 = None then (let (p, s') = strdup S s1 in (r1\<lparr>search_base := p\<rparr>, s'))
      else (r1, s1)) = (r2, s2)"
    by fastforce
  note D1 = default_step [OF st1]
  note D2 = default_step [OF st2]
  have oc2: "out_conf s2 = out_conf s"
    using D1 D2 by simp
  obtain e1 where e1: "heap s1 = heap s @ e1" "no_conf e1"
    and u1: "case uri r of Some p \<Rightarrow> r1 = r
             | None \<Rightarrow> (r1 = r\<lparr>uri := None\<rparr> \<or> r1 = r\<lparr>uri := Some n\<rparr> \<and> e1 = [Some (Bytes (U @ [NUL]))])"
    using D1 by (cases "uri r") (auto simp: n_def)
  obtain e2 where e2: "heap s2 = heap s1 @ e2" "no_conf e2"
    and u2: "case search_base r1 of Some p \<Rightarrow> r2 = r1
             | None \<Rightarrow> (r2 = r1\<lparr>search_base := None\<rparr> \<or>
                         r2 = r1\<lparr>search_base := Some (length (heap s1))\<rparr> \<and> e2 = [Some (Bytes (S @ [NUL]))])"
    using D2 by (cases "search_base r1") auto
  have h2: "heap s2 = heap s @ (e1 @ e2)" "no_conf (e1 @ e2)"
    using e1 e2 by simp_all
  have unf: "default_config B E a s =
     (if search_base r2 = None \<or> uri r2 = None then default_config_fail a r2 s2
      else if hostname r2 = None then
       (let (p, s3) = malloc E m s2;
            r3 = r2\<lparr>hostname := p\<rparr>
        in case p of
             None \<Rightarrow> default_config_fail a r3 s3
           | Some h \<Rightarrow>
               (case gethostname E m of
                  None \<Rightarrow> default_config_fail a r3 s3
                | Some w \<Rightarrow> do {
                    buf \<leftarrow> bytes_at s3 p;
                    let buf' = store_bytes w buf;
                    if m = 0 \<or> length buf' \<le> m - 1 then None
                    else default_config_timeout B a r3
                           (store h (Bytes (buf'[m - 1 := NUL])) s3)
                  }))
     else default_config_timeout B a r2 s2)"
    using r st1 st2 unfolding default_config_def U_def S_def m_def by simp
  txt \<open>the fields after the two string defaults\<close>
  have f2: "bind_dn r2 = bind_dn r" "bind_pw r2 = bind_pw r" "timeout r2 = timeout r"
    "hostname r2 = hostname r"
    using u1 u2 by (auto split: option.splits)
  have ur2: "uri r2 = uri r1"
    using u2 by (cases "search_base r1") auto
  have fu: "case uri r of Some p \<Rightarrow> uri r2 = Some p
      | None \<Rightarrow> \<exists>p. uri r2 = Some p \<and> n \<le> p \<and> lookup (heap s2) p = Some (Bytes (U @ [NUL]))"
    if "uri r2 \<noteq> None"
  proof (cases "uri r")
    case None
    then have "r1 = r\<lparr>uri := Some n\<rparr>" "e1 = [Some (Bytes (U @ [NUL]))]"
      using u1 that ur2 by auto
    then have "uri r2 = Some n" "lookup (heap s2) n = Some (Bytes (U @ [NUL]))"
      using ur2 h2(1) lookup_new_cell [of "heap s" "e1 @ e2" 0] by (simp_all add: n_def lookup_def)
    then show ?thesis using None by simp
  next
    case (Some p)
    then show ?thesis using u1 ur2 by simp
  qed
  have sb1: "search_base r1 = search_base r"
    using u1 by (cases "uri r") auto
  have fs: "case search_base r of Some p \<Rightarrow> search_base r2 = Some p
      | None \<Rightarrow> \<exists>p. search_base r2 = Some p \<and> n \<le> p \<and> lookup (heap s2) p = Some (Bytes (S @ [NUL]))"
    if "search_base r2 \<noteq> None"
  proof (cases "search_base r")
    case None
    then have *: "r2 = r1\<lparr>search_base := Some (length (heap s1))\<rparr>" "e2 = [Some (Bytes (S @ [NUL]))]"
      using u2 that sb1 by auto
    then have "lookup (heap s2) (length (heap s1)) = Some (Bytes (S @ [NUL]))"
      using e2(1) lookup_new_cell [of "heap s1" e2 0] by (simp add: lookup_def)
    moreover have "n \<le> length (heap s1)"
      using e1(1) by (simp add: n_def)
    ultimately show ?thesis using None * by simp
  next
    case (Some p)
    then show ?thesis using u2 sb1 by simp
  qed
  define T where "T r0 = (if timeout r0 = 0 then r0\<lparr>timeout := PAM_HBAC_DEFAULT_TIMEOUT B\<rparr> else r0)"
    for r0 :: pam_hbac_config
  have Tf: "bind_dn (T r0) = bind_dn r0" "bind_pw (T r0) = bind_pw r0" "uri (T r0) = uri r0"
    "search_base (T r0) = search_base r0" "hostname (T r0) = hostname r0"
    "timeout (T r0) = (if timeout r0 = 0 then PAM_HBAC_DEFAULT_TIMEOUT B else timeout r0)" for r0
    by (simp_all add: T_def)
  have tm: "default_config_timeout B a r0 s0 = Some (Some a, store a (Conf (T r0)) s0)" for r0 s0
    by (simp add: default_config_timeout_def T_def)
  txt \<open>the regular return, from a heap that extends the one after the string defaults\<close>
  have good: ?thesis
    if s': "heap s' = (heap s2)[a := Some (Conf (T r3))] @ e3" "no_conf e3" "out_conf s' = out_conf s"
      and res: "res = Some a"
      and r3: "bind_dn r3 = bind_dn r2" "bind_pw r3 = bind_pw r2" "timeout r3 = timeout r2"
        "uri r3 = uri r2" "search_base r3 = search_base r2"
      and ok: "uri r2 \<noteq> None" "search_base r2 \<noteq> None"
      and host: "case hostname r of Some p \<Rightarrow> hostname r3 = Some p
        | None \<Rightarrow> \<exists>p buf. hostname r3 = Some p \<and> n \<le> p \<and> lookup (heap s') p = Some (Bytes buf) \<and>
                 length buf = m \<and> 0 < m \<and> buf ! (m - 1) = NUL"
    for r3 e3
  proof -
    have a2: "a < length (heap s2)"
      using an h2(1) by (simp add: n_def)
    have keep: "lookup (heap s') p = Some c" if "lookup (heap s2) p = Some c" "n \<le> p" for p c
      using lookup_keep [OF that(1), of a] that(2) an by (simp add: s'(1))
    have "heap s' = (heap s)[a := Some (Conf (T r3))] @ (e1 @ e2 @ e3)"
      using s'(1) h2(1) an by (simp add: list_update_append n_def)
    moreover have "no_conf (e1 @ e2 @ e3)"
      using h2(2) s'(2) by simp
    moreover have "defaulted B n s' r (T r3)"
      unfolding defaulted_def Tf r3 f2 U_def [symmetric] S_def [symmetric] m_def [symmetric]
      using fu [OF ok(1)] fs [OF ok(2)] host keep
      by (auto split: option.splits)
    ultimately show ?thesis
      using res r s'(3) unfolding n_def by auto
  qed
  show ?thesis
  proof (cases "search_base r2 = None \<or> uri r2 = None")
    case True
    then have "default_config_fail a r2 s2 = Some (res, s')"
      using run unf by simp
    from default_config_fail_Some [OF this h2 oc2] show ?thesis
      using r by simp
  next
    case ok: False
    show ?thesis
    proof (cases "hostname r2")
      case (Some hp)
      then have "res = Some a" "s' = store a (Conf (T r2)) s2"
        using run unf ok tm by simp_all
      then show ?thesis
        using good [of r2 "[]"] oc2 ok Some f2(4) by simp
    next
      case None
      obtain p s3 where ma: "malloc E m s2 = (p, s3)"
        by (cases "malloc E m s2")
      note M = alloc_result [OF ma [unfolded malloc_def]]
      define r3 where "r3 = r2\<lparr>hostname := p\<rparr>"
      have unf3: "default_config B E a s =
         (case p of
             None \<Rightarrow> default_config_fail a r3 s3
           | Some h \<Rightarrow>
               (case gethostname E m of
                  None \<Rightarrow> default_config_fail a r3 s3
                | Some w \<Rightarrow> do {
                    buf \<leftarrow> bytes_at s3 p;
                    let buf' = store_bytes w buf;
                    if m = 0 \<or> length buf' \<le> m - 1 then None
                    else default_config_timeout B a r3
                           (store h (Bytes (buf'[m - 1 := NUL])) s3)
                  }))"
        unfolding unf r3_def using ok None ma
        by (cases "search_base r2"; cases "uri r2") (simp_all add: Let_def)
      obtain e3 where h3: "heap s3 = heap s @ e3" "no_conf e3" and oc3: "out_conf s3 = out_conf s"
        using M h2 oc2 by auto
      show ?thesis
      proof (cases p)
        case pn: None
        then have "default_config_fail a r3 s3 = Some (res, s')"
          using run unf3 by simp
        from default_config_fail_Some [OF this h3 oc3] show ?thesis
          using r by simp
      next
        case (Some h)
        define junk where "junk = map (uninit E) [0..<m]"
        have hh: "h = length (heap s2)" "heap s3 = heap s2 @ [Some (Bytes junk)]"
          using M Some by (auto simp: junk_def)
        show ?thesis
        proof (cases "gethostname E m")
          case gn: None
          then have "default_config_fail a r3 s3 = Some (res, s')"
            using run unf3 Some by simp
          from default_config_fail_Some [OF this h3 oc3] show ?thesis
            using r by simp
        next
          case (Some w)
          define buf where "buf = (store_bytes w junk)[m - 1 := NUL]"
          have b3: "bytes_at s3 p = Some junk"
            using hh \<open>p = Some h\<close> by (simp add: bytes_at_def lookup_def)
          have lb: "length buf = m"
            by (simp add: buf_def junk_def)
          have m0: "m \<noteq> 0" and fin: "res = Some a"
            "s' = store a (Conf (T r3)) (store h (Bytes buf) s3)"
            using run unf3 \<open>p = Some h\<close> Some b3 tm
            by (auto simp: buf_def junk_def split: if_splits)
          have "heap s' = (heap s2)[a := Some (Conf (T r3))] @ [Some (Bytes buf)]"
            using fin(2) hh an h2(1) by (simp add: list_update_append n_def)
          moreover from this have "lookup (heap s') h = Some (Bytes buf)"
            using hh(1) by (simp add: lookup_def nth_append)
          moreover have "n \<le> h"
            using hh(1) h2(1) by (simp add: n_def)
          moreover have "buf ! (m - 1) = NUL"
            using m0 lb by (simp add: buf_def junk_def)
          ultimately show ?thesis
            using good [of r3 "[Some (Bytes buf)]"] fin oc3 ok None f2(4) m0 lb \<open>p = Some h\<close>
            by (simp add: r3_def)
        qed
      qed
    qed
  qed
qed

section \<open>Blank lines (C1)\<close>

text \<open>
  C1 says that an empty or whitespace-only line is skipped like a comment.  The code has
  no such case: after the leading whitespace the line is empty, it is not a comment, the
  tokenizer finds no separator, and the line is a malformed line.  A line holding only a
  newline makes \<open>read_config_line\<close> return \<^verbatim>\<open>EINVAL\<close>, which is not the skip code
  \<^verbatim>\<open>EAGAIN\<close>, and a file holding only that line fails to load with \<^verbatim>\<open>EINVAL\<close>.
\<close>

theorem blank_line_is_malformed:
  "read_config_line B [CHR 0x0A] conf s = Some (EINVAL, s) \<and> EINVAL \<noteq> EAGAIN \<and>
   ph_read_config sample_macros (sample_sys [CHR 0x0A]) ''/etc/pam_hbac.conf'' (init_state [])
     = Some (EINVAL, \<lparr>heap = [None], oom = [], out_conf = None\<rparr>)"
proof -
  have "read_config_line B [CHR 0x0A] conf s = Some (EINVAL, s)"
    by (simp add: read_config_line_def get_key_value_def read_config_line_fail_def
        free_const_def free_def isspace_def SEPARATOR_def EINVAL_def)
  moreover have "EINVAL \<noteq> EAGAIN"
    by (simp add: EINVAL_def EAGAIN_def)
  moreover have
    "ph_read_config sample_macros (sample_sys [CHR 0x0A]) ''/etc/pam_hbac.conf'' (init_state [])
       = Some (EINVAL, \<lparr>heap = [None], oom = [], out_conf = None\<rparr>)"
    by code_simp
  ultimately show ?thesis by blast
qed

section \<open>Allocation failure in the tokenizer (C3)\<close>

text \<open>
  C3 says that when exactly one of the allocations of the key and the value fails, the
  other one is released before the out-of-memory error is returned.  The code returns
  \<^verbatim>\<open>ENOMEM\<close> without releasing it.  On the line \<^verbatim>\<open>a=b\<close>, when the copy of the line
  and the key are allocated and the value is not, the block of the key (address 1) is still
  live after the call; when the key fails and the value is allocated, the block of the
  value is.  The caller's key and value stay null, so its own cleanup releases nothing.
\<close>

theorem get_key_value_leaks_on_enomem:
  "get_key_value ''a=b'' (None, None) (init_state [True, True, False])
     = Some ((ENOMEM, None, None),
             \<lparr>heap = [None, Some (Bytes [CHR ''a'', NUL])], oom = [], out_conf = None\<rparr>) \<and>
   get_key_value ''a=b'' (None, None) (init_state [True, False, True])
     = Some ((ENOMEM, None, None),
             \<lparr>heap = [None, Some (Bytes [CHR ''b'', NUL])], oom = [], out_conf = None\<rparr>)"
  by code_simp

section \<open>Comment lines (C9)\<close>

text \<open>
  C9: a line whose first non-whitespace character is \<^verbatim>\<open>#\<close> leaves the record (indeed
  the whole state) unchanged; \<open>read_config_line\<close> returns \<^verbatim>\<open>EAGAIN\<close>, and the loop of
  the loader goes on with the next line as if the comment line were not there.
\<close>

theorem comment_line_skipped:
  "blank ws \<Longrightarrow>
   read_config_line B (ws @ CHR ''#'' # rest) conf s = Some (EAGAIN, s) \<and>
   read_lines B ((ws @ CHR ''#'' # rest) # lines) conf s = read_lines B lines conf s"
proof -
  assume ws: "blank ws"
  have "skip_leading (ws @ CHR ''#'' # rest) = CHR ''#'' # rest"
    using skip_leading_blank [OF ws, of "CHR ''#'' # rest"] by (simp add: isspace_def)
  then have "read_config_line B (ws @ CHR ''#'' # rest) conf s = Some (EAGAIN, s)"
    by (simp add: read_config_line_def read_config_line_fail_def free_const_def free_def)
  then show ?thesis by simp
qed

theorem comment_line_skipped_witness:
  "blank ''  '' \<and>
   read_config_line sample_macros (''  '' @ CHR ''#'' # '' ldap_uri = x'') 0 (init_state [])
     = Some (EAGAIN, init_state []) \<and>
   read_lines sample_macros [''  '' @ CHR ''#'' # '' ldap_uri = x''] 0 (init_state [])
     = Some (Eof, init_state [])"
proof -
  have b: "blank ''  ''"
    by (simp add: blank_def isspace_def)
  show ?thesis
    using b comment_line_skipped [OF b, of sample_macros "'' ldap_uri = x''" 0 "init_state []" "[]"]
    by simp
qed

section \<open>Recognised keys (C4)\<close>

text \<open>
  C4: take a line made of whitespace, a key, whitespace, the separator, whitespace, a value
  and whitespace, where each run of whitespace may be empty, the key holds no separator (so
  the separator is the first of the line; the value may hold further ones), key and value
  have no whitespace at their ends, the line is not a comment and is a C string.  If the
  key names the field \<open>f\<close> (it equals a recognised key up to case, \<open>key_field\<close>) and the
  three allocations of the tokenizer succeed, then \<open>read_config_line\<close> returns \<open>0\<close>, and
  afterwards field \<open>f\<close> of the record points to a block holding exactly the value,
  terminated; the other fields are as before.
\<close>

theorem directive_sets_field:
  assumes ws: "blank ws1" "blank ws2" "blank ws3" "blank ws4"
    and k: "trimmed k" "SEPARATOR \<notin> set k" "k \<noteq> [] \<longrightarrow> hd k \<noteq> CHR ''#''"
    and v: "trimmed v"
    and nul: "NUL \<notin> set k" "NUL \<notin> set v"
    and f: "key_field B k = Some f"
    and ok: "allocs_ok 3 s"
    and r: "conf_at s conf = Some r"
  shows "\<exists>s' p. read_config_line B (ws1 @ k @ ws2 @ SEPARATOR # ws3 @ v @ ws4) conf s = Some (0, s') \<and>
           conf_at s' conf = Some (set_field f (Some p) r) \<and>
           bytes_at s' (Some p) = Some (v @ [NUL]) \<and>
           string_at s' (Some p) = Some v"
proof -
  define line where "line = ws1 @ k @ ws2 @ SEPARATOR # ws3 @ v @ ws4"
  have cl: "classify line = Directive k v"
    using classify_directive [OF ws(1,2) k, of "ws3 @ v @ ws4"] strip_spec [OF ws(3) v ws(4)]
    by (simp add: line_def)
  have ln: "NUL \<notin> set line"
    using nul ws [THEN blank_no_sep] by (simp add: line_def SEPARATOR_def NUL_def)
  obtain ret s' where run: "read_config_line B line conf s = Some (ret, s')"
    using read_config_line_total [OF ok r] by blast
  define p where "p = length (heap s) + 2"
  have a: "conf < length (heap s)"
    using r lookup_Some_less [of "heap s" conf] by (simp add: conf_at_Some)
  from read_config_line_Some [OF run ln] cl ok r f
  have ret: "ret = 0"
    and h: "heap s' = (heap s)[conf := Some (Conf (set_field f (Some p) r))]
              @ [None, None, Some (Bytes (v @ [NUL]))]"
    by (auto simp: p_def)
  have "conf_at s' conf = Some (set_field f (Some p) r)"
    using h a by (simp add: conf_at_Some lookup_def nth_append)
  moreover have b: "bytes_at s' (Some p) = Some (v @ [NUL])"
    using h by (simp add: bytes_at_def lookup_def nth_append p_def)
  moreover have "string_at s' (Some p) = Some v"
    using b nul(2) by (simp add: string_at_def c_str_terminated)
  ultimately show ?thesis
    using run ret unfolding line_def by blast
qed

theorem directive_sets_field_witness:
  "blank '' '' \<and> blank ''  '' \<and> blank [CHR 0x0A] \<and> trimmed ''LDAP_URI'' \<and>
   SEPARATOR \<notin> set ''LDAP_URI'' \<and> trimmed ''ldap://dir.example.com'' \<and>
   NUL \<notin> set ''LDAP_URI'' \<and> NUL \<notin> set ''ldap://dir.example.com'' \<and>
   key_field sample_macros ''LDAP_URI'' = Some Uri \<and> allocs_ok 3 fresh_conf \<and>
   conf_at fresh_conf 0 = Some empty_config \<and>
   (\<exists>s' p. read_config_line sample_macros
             ('' '' @ ''LDAP_URI'' @ ''  '' @ SEPARATOR # '' '' @ ''ldap://dir.example.com'' @ [CHR 0x0A])
             0 fresh_conf = Some (0, s') \<and>
      conf_at s' 0 = Some (set_field Uri (Some p) empty_config) \<and>
      bytes_at s' (Some p) = Some (''ldap://dir.example.com'' @ [NUL]) \<and>
      string_at s' (Some p) = Some ''ldap://dir.example.com'')"
proof -
  have h: "blank '' ''" "blank ''  ''" "blank '' ''" "blank [CHR 0x0A]"
    "trimmed ''LDAP_URI''" "SEPARATOR \<notin> set ''LDAP_URI''"
    "''LDAP_URI'' \<noteq> [] \<longrightarrow> hd ''LDAP_URI'' \<noteq> CHR ''#''"
    "trimmed ''ldap://dir.example.com''"
    "NUL \<notin> set ''LDAP_URI''" "NUL \<notin> set ''ldap://dir.example.com''"
    by (simp_all add: blank_def trimmed_def isspace_def SEPARATOR_def NUL_def)
  have kf: "key_field sample_macros ''LDAP_URI'' = Some Uri"
    by code_simp
  have ok: "allocs_ok 3 fresh_conf"
    by (simp add: allocs_ok_def fresh_conf_def)
  have r: "conf_at fresh_conf 0 = Some empty_config"
    by (simp add: conf_at_def lookup_def fresh_conf_def)
  note t = directive_sets_field [OF h kf ok r]
  show ?thesis
    by (intro conjI h kf ok r t)
qed

section \<open>Unrecognised keys and the release of the key (C8)\<close>

text \<open>
  C8: take a key=value line (whitespace, key, whitespace, separator, anything) that is not a
  comment, with the three allocations of the tokenizer succeeding.  \<open>read_config_line\<close>
  returns \<open>0\<close> (neither an error nor the skip code), and the state afterwards is known
  block by block.  Whatever the key, the first two blocks the call allocated, the copy of
  the line and the key string, are released when it returns: the key is freed regardless
  of the match outcome.  When the trimmed key equals none of the recognised keys up to
  case, the third block, the value, is released too and nothing else has changed, so every
  field of the record is as it was.  When the key names a field, the value block is the
  one block that stays, owned by that field.
\<close>

theorem key_released_unknown_ignored:
  assumes ws: "blank ws1" "blank ws2"
    and k: "trimmed k" "SEPARATOR \<notin> set k" "k \<noteq> [] \<longrightarrow> hd k \<noteq> CHR ''#''"
    and nul: "NUL \<notin> set k" "NUL \<notin> set rest"
    and ok: "allocs_ok 3 s"
    and r: "conf_at s conf = Some r"
  shows "read_config_line B (ws1 @ k @ ws2 @ SEPARATOR # rest) conf s
           = Some (0, s\<lparr>heap :=
                (case key_field B k of
                   None \<Rightarrow> heap s @ [None, None, None]
                 | Some f \<Rightarrow>
                     (heap s)[conf := Some (Conf (set_field f (Some (length (heap s) + 2)) r))]
                       @ [None, None, Some (Bytes (strip rest @ [NUL]))]),
              oom := drop 3 (oom s)\<rparr>)"
proof -
  define line where "line = ws1 @ k @ ws2 @ SEPARATOR # rest"
  have cl: "classify line = Directive k (strip rest)"
    using classify_directive [OF ws(1,2) k, of rest] by (simp add: line_def)
  have ln: "NUL \<notin> set line"
    using nul ws [THEN blank_no_sep] by (simp add: line_def SEPARATOR_def NUL_def)
  obtain ret s' where run: "read_config_line B line conf s = Some (ret, s')"
    using read_config_line_total [OF ok r] by blast
  have a: "conf < length (heap s)" "heap s ! conf = Some (Conf r)"
    using conf_at_nth [OF r] by simp_all
  from read_config_line_Some [OF run ln] cl ok r
  have ret: "ret = 0" and o: "oom s' = drop 3 (oom s)" "out_conf s' = out_conf s"
    and h: "heap s' =
           (heap s)[conf := Some (Conf (case key_field B k of None \<Rightarrow> r
                      | Some f \<Rightarrow> set_field f (Some (length (heap s) + 2)) r))]
           @ [None, None, case key_field B k of None \<Rightarrow> None
                          | Some f \<Rightarrow> Some (Bytes (strip rest @ [NUL]))]"
    by auto
  have "heap s' =
      (case key_field B k of
         None \<Rightarrow> heap s @ [None, None, None]
       | Some f \<Rightarrow>
           (heap s)[conf := Some (Conf (set_field f (Some (length (heap s) + 2)) r))]
             @ [None, None, Some (Bytes (strip rest @ [NUL]))])"
    using h a by (cases "key_field B k") (simp_all add: list_update_same_conv)
  then have "s' = s\<lparr>heap :=
                (case key_field B k of
                   None \<Rightarrow> heap s @ [None, None, None]
                 | Some f \<Rightarrow>
                     (heap s)[conf := Some (Conf (set_field f (Some (length (heap s) + 2)) r))]
                       @ [None, None, Some (Bytes (strip rest @ [NUL]))]),
              oom := drop 3 (oom s)\<rparr>"
    using o by (intro state.equality) simp_all
  then show ?thesis
    using run ret unfolding line_def by simp
qed

theorem key_released_unknown_ignored_witness:
  "blank [] \<and> blank '' '' \<and> trimmed ''bogus_key'' \<and> SEPARATOR \<notin> set ''bogus_key'' \<and>
   NUL \<notin> set ''bogus_key'' \<and> NUL \<notin> set (''value'' @ [CHR 0x0A]) \<and>
   trimmed ''LDAP_URI'' \<and> SEPARATOR \<notin> set ''LDAP_URI'' \<and> NUL \<notin> set ''LDAP_URI'' \<and>
   NUL \<notin> set ('' ldap://x '' @ [CHR 0x0A]) \<and>
   allocs_ok 3 fresh_conf \<and> conf_at fresh_conf 0 = Some empty_config \<and>
   read_config_line sample_macros ([] @ ''bogus_key'' @ [] @ SEPARATOR # ''value'' @ [CHR 0x0A]) 0 fresh_conf
     = Some (0, \<lparr>heap = [Some (Conf empty_config), None, None, None], oom = [], out_conf = None\<rparr>) \<and>
   read_config_line sample_macros
       ('' '' @ ''LDAP_URI'' @ '' '' @ SEPARATOR # '' ldap://x '' @ [CHR 0x0A]) 0 fresh_conf
     = Some (0, \<lparr>heap = [Some (Conf (empty_config\<lparr>uri := Some 3\<rparr>)), None, None,
                            Some (Bytes (''ldap://x'' @ [NUL]))],
                   oom = [], out_conf = None\<rparr>)"
proof -
  have h1: "blank []" "blank []"
    "trimmed ''bogus_key''" "SEPARATOR \<notin> set ''bogus_key''"
    "''bogus_key'' \<noteq> [] \<longrightarrow> hd ''bogus_key'' \<noteq> CHR ''#''"
    "NUL \<notin> set ''bogus_key''" "NUL \<notin> set (''value'' @ [CHR 0x0A])"
    by (simp_all add: blank_def trimmed_def isspace_def SEPARATOR_def NUL_def)
  have h2: "blank '' ''" "blank '' ''"
    "trimmed ''LDAP_URI''" "SEPARATOR \<notin> set ''LDAP_URI''"
    "''LDAP_URI'' \<noteq> [] \<longrightarrow> hd ''LDAP_URI'' \<noteq> CHR ''#''"
    "NUL \<notin> set ''LDAP_URI''" "NUL \<notin> set ('' ldap://x '' @ [CHR 0x0A])"
    by (simp_all add: blank_def trimmed_def isspace_def SEPARATOR_def NUL_def)
  have kf1: "key_field sample_macros ''bogus_key'' = None"
    by code_simp
  have kf2: "key_field sample_macros ''LDAP_URI'' = Some Uri"
    by code_simp
  have st: "strip ('' ldap://x '' @ [CHR 0x0A]) = ''ldap://x''"
    by code_simp
  have ok: "allocs_ok 3 fresh_conf"
    by (simp add: allocs_ok_def fresh_conf_def)
  have r: "conf_at fresh_conf 0 = Some empty_config"
    by (simp add: conf_at_def lookup_def fresh_conf_def)
  have t1: "read_config_line sample_macros ([] @ ''bogus_key'' @ [] @ SEPARATOR # ''value'' @ [CHR 0x0A]) 0 fresh_conf
     = Some (0, \<lparr>heap = [Some (Conf empty_config), None, None, None], oom = [], out_conf = None\<rparr>)"
    using key_released_unknown_ignored [OF h1 ok r, of sample_macros]
    unfolding kf1 by (simp add: fresh_conf_def)
  have t2: "read_config_line sample_macros
       ('' '' @ ''LDAP_URI'' @ '' '' @ SEPARATOR # '' ldap://x '' @ [CHR 0x0A]) 0 fresh_conf
     = Some (0, \<lparr>heap = [Some (Conf (empty_config\<lparr>uri := Some 3\<rparr>)), None, None,
                            Some (Bytes (''ldap://x'' @ [NUL]))],
                   oom = [], out_conf = None\<rparr>)"
    using key_released_unknown_ignored [OF h2 ok r, of sample_macros]
    unfolding kf2 st by (simp add: fresh_conf_def)
  show ?thesis
    by (intro conjI h1(1,3,4,6,7) h2(1,3,4,6,7) ok r t1 t2)
qed

end
